theory Spec2Isabelle
  imports Main "HOL-Library.Word"
begin

section \<open>The document store as the mutex code sees it\<close>

text \<open>
  The Go package \<^verbatim>\<open>mongorepo\<close> keeps one lock document per identity in the collection
  \<^verbatim>\<open>mutexes_<collection>\<close>. A lock document has the fields \<^verbatim>\<open>_id\<close>, \<^verbatim>\<open>state\<close>
  (the code writes the literals 0 for unlocked and 1 for locked) and \<^verbatim>\<open>time\<close>
  (milliseconds). In the program \<^verbatim>\<open>time\<close> is a Go \<^verbatim>\<open>uint64\<close>; in the store it is a BSON
  integer, and the record holds the value of that integer. The unique \<^verbatim>\<open>_id\<close> index
  makes the collection a partial map from identities to documents.
\<close>

type_synonym u64 = "64 word"

record lockdoc =
  state :: int
  time :: int

text \<open>
  BSON has no unsigned 64-bit integer. The driver named in \<^verbatim>\<open>go.mod\<close>
  (\<^verbatim>\<open>go.mongodb.org/mongo-driver v1.10.2\<close>, not part of this repository) writes a Go
  \<^verbatim>\<open>uint64\<close> as a BSON int64 of the same value and refuses a value above
  \<^verbatim>\<open>math.MaxInt64\<close> with an error (\<^verbatim>\<open>"... overflows int64"\<close>) before anything is sent
  to the store.
\<close>

definition MaxInt64 :: u64 where
  "MaxInt64 = 9223372036854775807"

text \<open>
  Errors a driver call can hand back: the sentinel \<^verbatim>\<open>mongo.ErrNoDocuments\<close>, a
  \<^verbatim>\<open>mongo.WriteException\<close> carrying its \<^verbatim>\<open>WriteErrors\<close>, an error wrapping another one
  (what \<^verbatim>\<open>errors.As\<close> walks through), the driver's refusal to encode a \<^verbatim>\<open>uint64\<close>
  above \<^verbatim>\<open>math.MaxInt64\<close> (with the value refused), and any other transport or driver
  failure.
\<close>

datatype write_error = WriteError (Code: int) (Message: string)

datatype err =
    ErrNoDocuments
  | WriteException "write_error list"
  | Wrapped string err
  | MarshalError u64
  | TransportError string

text \<open>
  The query documents the code builds. Every filter of the package fixes \<^verbatim>\<open>_id\<close>, so a
  filter is the identity together with a condition on the remaining fields:
  \<^verbatim>\<open>{"state", s}\<close>, \<^verbatim>\<open>{"time", {"$lt", t}}\<close>, \<^verbatim>\<open>$or\<close> of two conditions, or no further
  condition. An update is a \<^verbatim>\<open>$set\<close> of some of the two fields. The filter and the
  update are built from Go values, so a time in them is a \<^verbatim>\<open>uint64\<close>. The store
  compares the stored integer with the integer the threshold was encoded as; a threshold
  above \<^verbatim>\<open>math.MaxInt64\<close> has no encoding and matches nothing.
\<close>

datatype cond = AnyDoc | StateEq int | TimeLt u64 | OrC cond cond

fun holds :: "cond \<Rightarrow> lockdoc \<Rightarrow> bool" where
  "holds AnyDoc d = True"
| "holds (StateEq s) d = (state d = s)"
| "holds (TimeLt t) d = (t \<le> MaxInt64 \<and> time d < uint t)"
| "holds (OrC a b) d = (holds a d \<or> holds b d)"

record upd =
  set_state :: "int option"
  set_time :: "u64 option"

definition apply_upd :: "upd \<Rightarrow> lockdoc \<Rightarrow> lockdoc" where
  "apply_upd u d =
     d\<lparr>state := (case set_state u of None \<Rightarrow> state d | Some s \<Rightarrow> s),
       time := (case set_time u of None \<Rightarrow> time d | Some t \<Rightarrow> uint t)\<rparr>"

text \<open>
  Encoding a filter or an update: the first \<^verbatim>\<open>uint64\<close> in it that is above
  \<^verbatim>\<open>math.MaxInt64\<close>, if there is one, is what the driver refuses.
\<close>

fun cond_overflow :: "cond \<Rightarrow> u64 option" where
  "cond_overflow AnyDoc = None"
| "cond_overflow (StateEq s) = None"
| "cond_overflow (TimeLt t) = (if t \<le> MaxInt64 then None else Some t)"
| "cond_overflow (OrC a b) =
     (case cond_overflow a of Some t \<Rightarrow> Some t | None \<Rightarrow> cond_overflow b)"

definition upd_overflow :: "upd \<Rightarrow> u64 option" where
  "upd_overflow u =
     (case set_time u of
        None \<Rightarrow> None
      | Some t \<Rightarrow> if t \<le> MaxInt64 then None else Some t)"

text \<open>The store operations the package issues, as they are recorded in the trace.\<close>

datatype 'k op =
    OpFindOneAndUpdate 'k cond upd
  | OpFindOne 'k
  | OpInsertOne 'k
  | OpUpdateOne 'k upd

text \<open>
  What the environment does during one round trip to the store: the call may fail with a
  transport or driver error (then it has no effect on the collection), and the wall clock
  of the calling process moves on by some amount (any 64-bit amount, so a clock that is
  set back is covered too).
\<close>

record roundtrip =
  fault :: "err option"
  elapsed :: u64

text \<open>
  The world a call runs in: the collection, the caller's wall clock in milliseconds as
  \<^verbatim>\<open>uint64(time.Now().UnixMilli())\<close> reads it, what the environment does on the coming
  round trips (none listed: no fault, no time passing), and the trace of the store
  operations issued so far.
\<close>

record ('k, 'd) world =
  docs :: "'k \<rightharpoonup> 'd"
  wall :: u64
  script :: "roundtrip list"
  oplog :: "'k op list"

definition round_trip :: "'k op \<Rightarrow> ('k, 'd) world \<Rightarrow> err option \<times> ('k, 'd) world" where
  "round_trip opn w =
     (case script w of
        [] \<Rightarrow> (None, w\<lparr>oplog := oplog w @ [opn]\<rparr>)
      | rt # rest \<Rightarrow>
          (fault rt, w\<lparr>wall := wall w + elapsed rt, script := rest, oplog := oplog w @ [opn]\<rparr>))"

text \<open>
  \<^verbatim>\<open>coll.FindOneAndUpdate(ctx, filter, update).Decode(&doc)\<close>: the driver encodes the
  filter, then the update, and gives up with the encoding error, sending nothing, when
  one of them cannot be encoded. Otherwise the call is one atomic step of the store:
  with no matching document the result is \<^verbatim>\<open>mongo.ErrNoDocuments\<close>; otherwise the update
  is applied and the matched document is returned.
\<close>

definition FindOneAndUpdate ::
  "'k \<Rightarrow> cond \<Rightarrow> upd \<Rightarrow> ('k, lockdoc) world \<Rightarrow> (err + lockdoc) \<times> ('k, lockdoc) world" where
  "FindOneAndUpdate id' c u w =
     (case cond_overflow c of
        Some t \<Rightarrow> (Inl (MarshalError t), w)
      | None \<Rightarrow>
          (case upd_overflow u of
             Some t \<Rightarrow> (Inl (MarshalError t), w)
           | None \<Rightarrow>
               (case round_trip (OpFindOneAndUpdate id' c u) w of
                  (Some e, w') \<Rightarrow> (Inl e, w')
                | (None, w') \<Rightarrow>
                    (case docs w' id' of
                       None \<Rightarrow> (Inl ErrNoDocuments, w')
                     | Some d \<Rightarrow>
                         if holds c d
                         then (Inr d, w'\<lparr>docs := (docs w')(id' \<mapsto> apply_upd u d)\<rparr>)
                         else (Inl ErrNoDocuments, w')))))"

text \<open>\<^verbatim>\<open>coll.FindOne(ctx, {_id: id})\<close>: the document, or \<^verbatim>\<open>mongo.ErrNoDocuments\<close>.\<close>

definition FindOne :: "'k \<Rightarrow> ('k, 'd) world \<Rightarrow> (err + 'd) \<times> ('k, 'd) world" where
  "FindOne id' w =
     (case round_trip (OpFindOne id') w of
        (Some e, w') \<Rightarrow> (Inl e, w')
      | (None, w') \<Rightarrow>
          (case docs w' id' of
             None \<Rightarrow> (Inl ErrNoDocuments, w')
           | Some d \<Rightarrow> (Inr d, w')))"

text \<open>
  The document \<^verbatim>\<open>NewAndLock\<close> builds, \<^verbatim>\<open>bson.D{{"_id", id}, {"state", s}, {"time", t}}\<close>,
  as Go values.
\<close>

record new_doc =
  doc_state :: int
  doc_time :: u64

text \<open>
  \<^verbatim>\<open>coll.InsertOne(ctx, doc)\<close>: the driver encodes the document first and gives up with
  the encoding error when it cannot. A document whose \<^verbatim>\<open>_id\<close> is taken is rejected by
  the store with a write exception whose write error has the duplicate-key code 11000.
\<close>

definition InsertOne ::
  "'k \<Rightarrow> new_doc \<Rightarrow> ('k, lockdoc) world \<Rightarrow> err option \<times> ('k, lockdoc) world" where
  "InsertOne id' nd w =
     (if \<not> doc_time nd \<le> MaxInt64 then (Some (MarshalError (doc_time nd)), w)
      else
        (case round_trip (OpInsertOne id') w of
           (Some e, w') \<Rightarrow> (Some e, w')
         | (None, w') \<Rightarrow>
             (case docs w' id' of
                Some _ \<Rightarrow>
                  (Some (WriteException [WriteError 11000 ''E11000 duplicate key error'']), w')
              | None \<Rightarrow>
                  (None, w'\<lparr>docs := (docs w')
                     (id' \<mapsto> \<lparr>state = doc_state nd, time = uint (doc_time nd)\<rparr>)\<rparr>))))"

text \<open>
  \<^verbatim>\<open>coll.UpdateOne(ctx, {_id: id}, update)\<close> without upsert: a missing document is not
  an error and nothing is created.
\<close>

definition UpdateOne ::
  "'k \<Rightarrow> upd \<Rightarrow> ('k, lockdoc) world \<Rightarrow> err option \<times> ('k, lockdoc) world" where
  "UpdateOne id' u w =
     (case upd_overflow u of
        Some t \<Rightarrow> (Some (MarshalError t), w)
      | None \<Rightarrow>
          (case round_trip (OpUpdateOne id' u) w of
             (Some e, w') \<Rightarrow> (Some e, w')
           | (None, w') \<Rightarrow>
               (case docs w' id' of
                  None \<Rightarrow> (None, w')
                | Some d \<Rightarrow> (None, w'\<lparr>docs := (docs w')(id' \<mapsto> apply_upd u d)\<rparr>))))"

section \<open>MongodbMutexes\<close>

record MongodbMutexes =
  lockRetryCount :: int
  maxLockTime :: u64

definition defaultLockRetryCount :: int where
  "defaultLockRetryCount = 300"

definition defaultMaxLockTime :: u64 where
  "defaultMaxLockTime = 1 * 60 * 1000"

definition NewMongodbMutexes :: MongodbMutexes where
  "NewMongodbMutexes = \<lparr>lockRetryCount = defaultLockRetryCount, maxLockTime = defaultMaxLockTime\<rparr>"

text \<open>
  \<^verbatim>\<open>tryLock\<close>: the filter is \<^verbatim>\<open>_id = id AND (state = 0 OR time < unlockTime)\<close>, the update
  \<^verbatim>\<open>$set {state: 1, time: currTime}\<close>. The result is the Go pair \<^verbatim>\<open>(ok, err)\<close>.
\<close>

definition tryLock ::
  "'k \<Rightarrow> u64 \<Rightarrow> u64 \<Rightarrow> ('k, lockdoc) world \<Rightarrow> (bool \<times> err option) \<times> ('k, lockdoc) world" where
  "tryLock id' currTime unlockTime w =
     (case FindOneAndUpdate id' (OrC (StateEq 0) (TimeLt unlockTime))
             \<lparr>set_state = Some 1, set_time = Some currTime\<rparr> w of
        (Inl e, w') \<Rightarrow> if e = ErrNoDocuments then ((False, None), w') else ((False, Some e), w')
      | (Inr _, w') \<Rightarrow> ((True, None), w'))"

definition exists ::
  "'k \<Rightarrow> ('k, lockdoc) world \<Rightarrow> (bool \<times> err option) \<times> ('k, lockdoc) world" where
  "exists id' w =
     (case FindOne id' w of
        (Inl e, w') \<Rightarrow> if e = ErrNoDocuments then ((False, None), w') else ((False, Some e), w')
      | (Inr _, w') \<Rightarrow> ((True, None), w'))"

text \<open>
  The retry loop of \<^verbatim>\<open>Lock\<close>, \<^verbatim>\<open>for retryTimesLeft > 0 { ...; retryTimesLeft-- }\<close>. The
  values \<^verbatim>\<open>currTime\<close> and \<^verbatim>\<open>unlockTime\<close> are the local variables set before the loop.
  The result is the Go triple \<^verbatim>\<open>(ok, absent, err)\<close>.
\<close>

function Lock_retry ::
  "'k \<Rightarrow> u64 \<Rightarrow> u64 \<Rightarrow> int \<Rightarrow> ('k, lockdoc) world
     \<Rightarrow> (bool \<times> bool \<times> err option) \<times> ('k, lockdoc) world" where
  "Lock_retry id' currTime unlockTime retryTimesLeft w =
     (if retryTimesLeft > 0 then
        (case tryLock id' currTime unlockTime w of
           ((tryOneOk, Some e), w') \<Rightarrow> ((False, False, Some e), w')
         | ((tryOneOk, None), w') \<Rightarrow>
             if tryOneOk then ((True, False, None), w')
             else Lock_retry id' currTime unlockTime (retryTimesLeft - 1) w')
      else ((False, False, None), w))"
  by pat_completeness auto
termination
  by (relation "measure (\<lambda>(id', currTime, unlockTime, retryTimesLeft, w). nat retryTimesLeft)") auto

definition Lock ::
  "MongodbMutexes \<Rightarrow> 'k \<Rightarrow> ('k, lockdoc) world
     \<Rightarrow> (bool \<times> bool \<times> err option) \<times> ('k, lockdoc) world" where
  "Lock mutexes id' w =
     (let currTime = wall w;
          unlockTime = currTime - maxLockTime mutexes
      in case tryLock id' currTime unlockTime w of
           ((tryOneOk, Some e), w1) \<Rightarrow> ((False, False, Some e), w1)
         | ((tryOneOk, None), w1) \<Rightarrow>
             if tryOneOk then ((True, False, None), w1)
             else
               (case exists id' w1 of
                  ((ex, Some e), w2) \<Rightarrow> ((False, False, Some e), w2)
                | ((ex, None), w2) \<Rightarrow>
                    if \<not> ex then ((False, True, None), w2)
                    else Lock_retry id' currTime unlockTime (lockRetryCount mutexes) w2))"

text \<open>
  \<^verbatim>\<open>isDup\<close>: \<^verbatim>\<open>errors.As(err, &e)\<close> looks along the chain of wrapped errors for a
  \<^verbatim>\<open>mongo.WriteException\<close>; the loop then looks for a write error with code 11000.
\<close>

fun errors_As_WriteException :: "err \<Rightarrow> write_error list option" where
  "errors_As_WriteException (WriteException ws) = Some ws"
| "errors_As_WriteException (Wrapped msg e) = errors_As_WriteException e"
| "errors_As_WriteException ErrNoDocuments = None"
| "errors_As_WriteException (MarshalError t) = None"
| "errors_As_WriteException (TransportError msg) = None"

fun has_code_11000 :: "write_error list \<Rightarrow> bool" where
  "has_code_11000 [] = False"
| "has_code_11000 (we # rest) = (if Code we = 11000 then True else has_code_11000 rest)"

definition isDup :: "err \<Rightarrow> bool" where
  "isDup e = (case errors_As_WriteException e of Some ws \<Rightarrow> has_code_11000 ws | None \<Rightarrow> False)"

definition NewAndLock ::
  "'k \<Rightarrow> ('k, lockdoc) world \<Rightarrow> (bool \<times> err option) \<times> ('k, lockdoc) world" where
  "NewAndLock id' w =
     (let currTime = wall w
      in case InsertOne id' \<lparr>doc_state = 1, doc_time = currTime\<rparr> w of
           (Some e, w') \<Rightarrow> if isDup e then ((False, None), w') else ((False, Some e), w')
         | (None, w') \<Rightarrow> ((True, None), w'))"

text \<open>
  \<^verbatim>\<open>UnlockAll\<close> has no result: what \<^verbatim>\<open>UpdateOne\<close> returns is dropped.
\<close>

fun UnlockAll :: "'k list \<Rightarrow> ('k, lockdoc) world \<Rightarrow> ('k, lockdoc) world" where
  "UnlockAll [] w = w"
| "UnlockAll (id' # ids) w =
     UnlockAll ids (snd (UpdateOne id' \<lparr>set_state = Some 0, set_time = None\<rparr> w))"

section \<open>MongodbStore.Load\<close>

text \<open>
  An entity document is a \<^verbatim>\<open>bson.D\<close>, a list of key-value pairs; the nil \<^verbatim>\<open>bson.D\<close> that
  \<^verbatim>\<open>var result bson.D\<close> declares is the empty list. \<^verbatim>\<open>bson.Marshal\<close> and
  \<^verbatim>\<open>bson.Unmarshal\<close> belong to the driver and are parameters here; \<^verbatim>\<open>Unmarshal\<close> fills
  the entity it is given and its error is not looked at by \<^verbatim>\<open>Load\<close>.
\<close>

type_synonym 'v bson_D = "(string \<times> 'v) list"

record ('v, 'b, 'e) bson =
  Marshal :: "'v bson_D \<Rightarrow> err + 'b"
  Unmarshal :: "'b \<Rightarrow> 'e \<Rightarrow> 'e"

text \<open>
  The store's \<^verbatim>\<open>newZeroEntity\<close> function, and the zero value of the type parameter
  \<^verbatim>\<open>T\<close> that the named result \<^verbatim>\<open>entity\<close> holds until it is assigned.
\<close>

record 'e MongodbStore =
  newZeroEntity :: "unit \<Rightarrow> 'e"
  zero_T :: 'e

text \<open>
  \<^verbatim>\<open>sr.Err()\<close> and \<^verbatim>\<open>sr.Decode(&result)\<close> of a \<^verbatim>\<open>SingleResult\<close>: a result that carries
  an error decodes nothing and leaves \<^verbatim>\<open>result\<close> as it was.
\<close>

definition Err :: "err + 'd \<Rightarrow> err option" where
  "Err sr = (case sr of Inl e \<Rightarrow> Some e | Inr _ \<Rightarrow> None)"

definition Decode :: "err + 'd \<Rightarrow> 'd \<Rightarrow> 'd" where
  "Decode sr result = (case sr of Inl _ \<Rightarrow> result | Inr d \<Rightarrow> d)"

definition Load ::
  "('v, 'b, 'e) bson \<Rightarrow> 'e MongodbStore \<Rightarrow> 'k \<Rightarrow> ('k, 'v bson_D) world
     \<Rightarrow> ('e \<times> bool \<times> err option) \<times> ('k, 'v bson_D) world" where
  "Load bs store id' w =
     (case FindOne id' w of
        (sr, w') \<Rightarrow>
          if Err sr = Some ErrNoDocuments then ((zero_T store, False, None), w')
          else
            (let result = Decode sr []
             in case Marshal bs result of
                  Inl e \<Rightarrow> ((zero_T store, False, Some e), w')
                | Inr doc \<Rightarrow> ((Unmarshal bs doc (newZeroEntity store ()), True, None), w')))"

section \<open>Concurrent callers\<close>

text \<open>
  A call of \<^verbatim>\<open>Lock\<close> is a sequence of round trips, each one atomic step of the store;
  between two of them other callers may act. The control points of one call: before the
  first \<^verbatim>\<open>tryLock\<close>; after it found no match, before \<^verbatim>\<open>exists\<close>; at the head of the
  retry loop with the value of \<^verbatim>\<open>retryTimesLeft\<close>; returned with \<^verbatim>\<open>(ok, absent, err)\<close>.
  The local variables \<^verbatim>\<open>currTime\<close> and \<^verbatim>\<open>unlockTime\<close> live from the first step on.
\<close>

datatype lock_pc =
    PcStart
  | PcProbe u64 u64
  | PcRetry u64 u64 int
  | PcDone bool bool "err option"

fun lock_step ::
  "MongodbMutexes \<Rightarrow> 'k \<Rightarrow> lock_pc \<Rightarrow> ('k, lockdoc) world \<Rightarrow> lock_pc \<times> ('k, lockdoc) world" where
  "lock_step mutexes id' PcStart w =
     (let currTime = wall w;
          unlockTime = currTime - maxLockTime mutexes
      in case tryLock id' currTime unlockTime w of
           ((tryOneOk, Some e), w') \<Rightarrow> (PcDone False False (Some e), w')
         | ((tryOneOk, None), w') \<Rightarrow>
             if tryOneOk then (PcDone True False None, w')
             else (PcProbe currTime unlockTime, w'))"
| "lock_step mutexes id' (PcProbe currTime unlockTime) w =
     (case exists id' w of
        ((ex, Some e), w') \<Rightarrow> (PcDone False False (Some e), w')
      | ((ex, None), w') \<Rightarrow>
          if \<not> ex then (PcDone False True None, w')
          else (PcRetry currTime unlockTime (lockRetryCount mutexes), w'))"
| "lock_step mutexes id' (PcRetry currTime unlockTime retryTimesLeft) w =
     (if retryTimesLeft > 0 then
        (case tryLock id' currTime unlockTime w of
           ((tryOneOk, Some e), w') \<Rightarrow> (PcDone False False (Some e), w')
         | ((tryOneOk, None), w') \<Rightarrow>
             if tryOneOk then (PcDone True False None, w')
             else (PcRetry currTime unlockTime (retryTimesLeft - 1), w'))
      else (PcDone False False None, w))"
| "lock_step mutexes id' (PcDone ok absent e) w = (PcDone ok absent e, w)"

text \<open>Running one call on its own for a number of steps.\<close>

fun lock_steps ::
  "nat \<Rightarrow> MongodbMutexes \<Rightarrow> 'k \<Rightarrow> lock_pc \<Rightarrow> ('k, lockdoc) world
     \<Rightarrow> lock_pc \<times> ('k, lockdoc) world" where
  "lock_steps 0 mutexes id' pc w = (pc, w)"
| "lock_steps (Suc n) mutexes id' pc w =
     (case lock_step mutexes id' pc w of (pc', w') \<Rightarrow> lock_steps n mutexes id' pc' w')"

text \<open>
  A schedule interleaves the calls: each event names the caller that takes its next step
  and gives the reading of that caller's own clock at that moment (callers may run on
  different machines). An event for a caller that does not exist does nothing.
\<close>

fun interleave ::
  "MongodbMutexes \<Rightarrow> 'k \<Rightarrow> (nat \<times> u64) list \<Rightarrow> lock_pc list \<times> ('k, lockdoc) world
     \<Rightarrow> lock_pc list \<times> ('k, lockdoc) world" where
  "interleave mutexes id' [] cfg = cfg"
| "interleave mutexes id' ((j, now) # sched) (pcs, w) =
     (if j < length pcs then
        (case lock_step mutexes id' (pcs ! j) (w\<lparr>wall := now\<rparr>) of
           (pc', w') \<Rightarrow> interleave mutexes id' sched (pcs[j := pc'], w'))
      else interleave mutexes id' sched (pcs, w))"

fun acquired :: "lock_pc \<Rightarrow> bool" where
  "acquired (PcDone ok absent e) = ok"
| "acquired _ = False"

text \<open>
  The values of \<^verbatim>\<open>currTime\<close> and \<^verbatim>\<open>unlockTime\<close> a call holds at a control point.
\<close>

fun pc_times :: "lock_pc \<Rightarrow> (u64 \<times> u64) option" where
  "pc_times (PcProbe currTime unlockTime) = Some (currTime, unlockTime)"
| "pc_times (PcRetry currTime unlockTime retryTimesLeft) = Some (currTime, unlockTime)"
| "pc_times _ = None"

text \<open>
  No lock taken at one event of a schedule is stale at another: no clock reading of the
  schedule is below the staleness threshold \<^verbatim>\<open>now - maxLockTime\<close> of another reading.
\<close>

definition no_expiry :: "MongodbMutexes \<Rightarrow> (nat \<times> u64) list \<Rightarrow> bool" where
  "no_expiry mutexes sched =
     list_all (\<lambda>(j, t). list_all (\<lambda>(j', now). \<not> t < now - maxLockTime mutexes) sched) sched"

section \<open>Notions used in the statements\<close>

text \<open>
  The two values \<^verbatim>\<open>tryLock\<close> sends for a \<^verbatim>\<open>Lock\<close> call entered in this world,
  \<^verbatim>\<open>unlockTime\<close> in the filter and \<^verbatim>\<open>currTime\<close> in the update, are at most
  \<^verbatim>\<open>math.MaxInt64\<close>, so the driver can encode them.
\<close>

definition in_int64_range :: "MongodbMutexes \<Rightarrow> ('k, 'd) world \<Rightarrow> bool" where
  "in_int64_range mutexes w =
     (wall w - maxLockTime mutexes \<le> MaxInt64 \<and> wall w \<le> MaxInt64)"

text \<open>No round trip that is still to come fails.\<close>

definition no_faults :: "('k, 'd) world \<Rightarrow> bool" where
  "no_faults w = list_all (\<lambda>rt. fault rt = None) (script w)"

text \<open>The conditional acquire \<^verbatim>\<open>tryLock\<close> sends, as it shows in the trace.\<close>

definition acquire_op :: "'k \<Rightarrow> u64 \<Rightarrow> u64 \<Rightarrow> 'k op" where
  "acquire_op id' currTime unlockTime =
     OpFindOneAndUpdate id' (OrC (StateEq 0) (TimeLt unlockTime))
       \<lparr>set_state = Some 1, set_time = Some currTime\<rparr>"



section \<open>Facts about the store operations and the calls\<close>

lemma round_trip_docs [simp]: "docs (snd (round_trip opn w)) = docs w"
  by (simp add: round_trip_def split: list.splits)

lemma round_trip_oplog [simp]: "oplog (snd (round_trip opn w)) = oplog w @ [opn]"
  by (simp add: round_trip_def split: list.splits)

lemma round_trip_no_faults:
  "no_faults w \<Longrightarrow> fst (round_trip opn w) = None \<and> no_faults (snd (round_trip opn w))"
  by (auto simp: round_trip_def no_faults_def split: list.splits)

lemma tryLock_overflow:
  assumes "\<not> (ut \<le> MaxInt64 \<and> ct \<le> MaxInt64)"
  shows "tryLock i ct ut w =
           ((False, Some (MarshalError (if ut \<le> MaxInt64 then ct else ut))), w)"
  using assms
  by (auto simp: tryLock_def FindOneAndUpdate_def upd_overflow_def)

lemma tryLock_unfold:
  assumes "ut \<le> MaxInt64" and "ct \<le> MaxInt64"
  shows "tryLock i ct ut w =
     (case round_trip (acquire_op i ct ut) w of
        (Some e, w') \<Rightarrow> ((False, if e = ErrNoDocuments then None else Some e), w')
      | (None, w') \<Rightarrow>
          (case docs w i of
             None \<Rightarrow> ((False, None), w')
           | Some d \<Rightarrow>
               if state d = 0 \<or> time d < uint ut
               then ((True, None),
                     w'\<lparr>docs := (docs w)(i \<mapsto> d\<lparr>state := 1, time := uint ct\<rparr>)\<rparr>)
               else ((False, None), w')))"
proof -
  obtain f w' where rt: "round_trip (acquire_op i ct ut) w = (f, w')"
    by (cases "round_trip (acquire_op i ct ut) w")
  have d: "docs w' = docs w"
    using round_trip_docs [of "acquire_op i ct ut" w] rt by simp
  show ?thesis
    using rt d assms
    by (auto simp: tryLock_def FindOneAndUpdate_def acquire_op_def apply_upd_def
        upd_overflow_def split: option.splits)
qed

lemma exists_unfold:
  "exists i w =
     (case round_trip (OpFindOne i) w of
        (Some e, w') \<Rightarrow> ((False, if e = ErrNoDocuments then None else Some e), w')
      | (None, w') \<Rightarrow> ((docs w i \<noteq> None, None), w'))"
proof -
  obtain f w' where rt: "round_trip (OpFindOne i) w = (f, w')"
    by (cases "round_trip (OpFindOne i) w")
  have d: "docs w' = docs w"
    using round_trip_docs [of "OpFindOne i" w] rt by simp
  show ?thesis
    using rt d
    by (auto simp: exists_def FindOne_def split: option.splits)
qed

lemma Lock_retry_held:
  assumes "docs w i = Some d" "state d \<noteq> 0" "\<not> time d < uint ut" "no_faults w"
    and "ut \<le> MaxInt64" "ct \<le> MaxInt64"
  shows "fst (Lock_retry i ct ut n w) = (False, False, None)
       \<and> docs (snd (Lock_retry i ct ut n w)) = docs w
       \<and> oplog (snd (Lock_retry i ct ut n w)) = oplog w @ replicate (nat n) (acquire_op i ct ut)
       \<and> no_faults (snd (Lock_retry i ct ut n w))"
  using assms
proof (induction i ct ut n w rule: Lock_retry.induct)
  case (1 i ct ut n w)
  show ?case
  proof (cases "n > 0")
    case False
    with 1 show ?thesis by simp
  next
    case True
    obtain f w' where rt: "round_trip (acquire_op i ct ut) w = (f, w')"
      by (cases "round_trip (acquire_op i ct ut) w")
    have f: "f = None" and nf: "no_faults w'"
      using round_trip_no_faults [OF "1.prems"(4), of "acquire_op i ct ut"] rt by simp_all
    have d: "docs w' = docs w" and l: "oplog w' = oplog w @ [acquire_op i ct ut]"
      using round_trip_docs [of "acquire_op i ct ut" w]
        round_trip_oplog [of "acquire_op i ct ut" w] rt by simp_all
    have tl: "tryLock i ct ut w = ((False, None), w')"
      using rt f "1.prems" by (simp add: tryLock_unfold)
    have ih: "fst (Lock_retry i ct ut (n - 1) w') = (False, False, None)
       \<and> docs (snd (Lock_retry i ct ut (n - 1) w')) = docs w'
       \<and> oplog (snd (Lock_retry i ct ut (n - 1) w')) = oplog w' @ replicate (nat (n - 1)) (acquire_op i ct ut)
       \<and> no_faults (snd (Lock_retry i ct ut (n - 1) w'))"
      using "1.IH" [OF True tl [symmetric] refl refl] "1.prems" d nf by simp
    have rep: "replicate (nat n) (acquire_op i ct ut)
         = acquire_op i ct ut # replicate (nat (n - 1)) (acquire_op i ct ut)"
      using True by (cases "nat n") (auto simp: nat_diff_distrib)
    have step: "Lock_retry i ct ut n w = Lock_retry i ct ut (n - 1) w'"
      using True tl by (subst Lock_retry.simps) simp
    show ?thesis
      using ih d l rep step by simp
  qed
qed

lemma tryLock_result:
  "(fst (tryLock i ct ut w) = (True, None)
      \<and> ut \<le> MaxInt64 \<and> ct \<le> MaxInt64
      \<and> (\<exists>d. docs w i = Some d \<and> (state d = 0 \<or> time d < uint ut)
            \<and> docs (snd (tryLock i ct ut w))
                = (docs w)(i \<mapsto> d\<lparr>state := 1, time := uint ct\<rparr>)))
   \<or> (\<not> fst (fst (tryLock i ct ut w)) \<and> docs (snd (tryLock i ct ut w)) = docs w)"
proof (cases "ut \<le> MaxInt64 \<and> ct \<le> MaxInt64")
  case False
  then show ?thesis
    by (simp add: tryLock_overflow)
next
  case True
  obtain f w' where rt: "round_trip (acquire_op i ct ut) w = (f, w')"
    by (cases "round_trip (acquire_op i ct ut) w")
  have d: "docs w' = docs w"
    using round_trip_docs [of "acquire_op i ct ut" w] rt by simp
  show ?thesis
    using rt d True by (auto simp: tryLock_unfold split: option.splits)
qed

lemma exists_docs [simp]: "docs (snd (exists i w)) = docs w"
proof -
  obtain f w' where rt: "round_trip (OpFindOne i) w = (f, w')"
    by (cases "round_trip (OpFindOne i) w")
  have d: "docs w' = docs w"
    using round_trip_docs [of "OpFindOne i" w] rt by simp
  show ?thesis
    using rt d by (auto simp: exists_unfold split: option.splits)
qed

lemma Lock_retry_result:
  "(fst (Lock_retry i ct ut n w) = (True, False, None)
      \<and> ut \<le> MaxInt64 \<and> ct \<le> MaxInt64
      \<and> (\<exists>d. docs w i = Some d \<and> (state d = 0 \<or> time d < uint ut)
            \<and> docs (snd (Lock_retry i ct ut n w))
                = (docs w)(i \<mapsto> d\<lparr>state := 1, time := uint ct\<rparr>)))
   \<or> (\<not> fst (fst (Lock_retry i ct ut n w)) \<and> docs (snd (Lock_retry i ct ut n w)) = docs w)"
proof (induction i ct ut n w rule: Lock_retry.induct)
  case (1 i ct ut n w)
  show ?case
  proof (cases "n > 0")
    case False
    then show ?thesis by simp
  next
    case True
    obtain ok e w' where tl: "tryLock i ct ut w = ((ok, e), w')"
      by (cases "tryLock i ct ut w") auto
    note tr = tryLock_result [of i ct ut w]
    show ?thesis
    proof (cases e)
      case (Some x)
      then show ?thesis
        using True tl tr by (subst (1 2 3) Lock_retry.simps) auto
    next
      case None
      show ?thesis
      proof (cases ok)
        case True
        then show ?thesis
          using \<open>n > 0\<close> tl tr None by (subst (1 2 3) Lock_retry.simps) auto
      next
        case False
        have step: "Lock_retry i ct ut n w = Lock_retry i ct ut (n - 1) w'"
          using \<open>n > 0\<close> tl None False by (subst Lock_retry.simps) simp
        have d: "docs w' = docs w"
          using tr tl False by simp
        show ?thesis
          using "1.IH" [OF \<open>n > 0\<close> tl [symmetric] refl None] False d step by simp
      qed
    qed
  qed
qed

lemma Lock_result:
  "(fst (Lock m i w) = (True, False, None)
      \<and> in_int64_range m w
      \<and> (\<exists>d. docs w i = Some d \<and> (state d = 0 \<or> time d < uint (wall w - maxLockTime m))
            \<and> docs (snd (Lock m i w))
                = (docs w)(i \<mapsto> d\<lparr>state := 1, time := uint (wall w)\<rparr>)))
   \<or> (\<not> fst (fst (Lock m i w)) \<and> docs (snd (Lock m i w)) = docs w)"
proof -
  let ?ct = "wall w" and ?ut = "wall w - maxLockTime m"
  obtain ok e w1 where tl: "tryLock i ?ct ?ut w = ((ok, e), w1)"
    by (cases "tryLock i ?ct ?ut w") auto
  note tr = tryLock_result [of i ?ct ?ut w]
  show ?thesis
  proof (cases "e = None \<and> \<not> ok")
    case False
    then show ?thesis
      using tl tr by (auto simp: Lock_def Let_def in_int64_range_def split: option.splits)
  next
    case True
    then have d1: "docs w1 = docs w"
      using tl tr by simp
    obtain ex e2 w2 where exq: "exists i w1 = ((ex, e2), w2)"
      by (cases "exists i w1") auto
    have d2: "docs w2 = docs w"
      using exists_docs [of i w1] exq d1 by simp
    show ?thesis
    proof (cases "e2 = None \<and> ex")
      case False
      then show ?thesis
        using tl True exq d2 by (auto simp: Lock_def Let_def split: option.splits)
    next
      case ex: True
      have "Lock m i w = Lock_retry i ?ct ?ut (lockRetryCount m) w2"
        using tl True exq ex by (simp add: Lock_def Let_def)
      then show ?thesis
        using Lock_retry_result [of i ?ct ?ut "lockRetryCount m" w2] d2
        by (simp add: in_int64_range_def)
    qed
  qed
qed

lemma Lock_overflow:
  assumes "\<not> in_int64_range m w"
  shows "Lock m i w =
     ((False, False,
       Some (MarshalError (if wall w - maxLockTime m \<le> MaxInt64 then wall w
                           else wall w - maxLockTime m))), w)"
  using assms tryLock_overflow [of "wall w - maxLockTime m" "wall w" i w]
  by (simp add: Lock_def Let_def in_int64_range_def)

lemma Lock_held:
  assumes "docs w i = Some d" "state d \<noteq> 0"
    and "\<not> time d < uint (wall w - maxLockTime m)" "no_faults w"
    and "in_int64_range m w"
  shows "fst (Lock m i w) = (False, False, None)
       \<and> docs (snd (Lock m i w)) = docs w
       \<and> oplog (snd (Lock m i w)) =
           oplog w @ [acquire_op i (wall w) (wall w - maxLockTime m), OpFindOne i]
             @ replicate (nat (lockRetryCount m)) (acquire_op i (wall w) (wall w - maxLockTime m))"
proof -
  let ?ct = "wall w" and ?ut = "wall w - maxLockTime m"
  have rng: "?ut \<le> MaxInt64" "?ct \<le> MaxInt64"
    using assms(5) by (simp_all add: in_int64_range_def)
  obtain f1 w1 where rt1: "round_trip (acquire_op i ?ct ?ut) w = (f1, w1)"
    by (cases "round_trip (acquire_op i ?ct ?ut) w")
  have f1: "f1 = None" and nf1: "no_faults w1"
    using round_trip_no_faults [OF assms(4), of "acquire_op i ?ct ?ut"] rt1 by simp_all
  have d1: "docs w1 = docs w" and l1: "oplog w1 = oplog w @ [acquire_op i ?ct ?ut]"
    using round_trip_docs [of "acquire_op i ?ct ?ut" w]
      round_trip_oplog [of "acquire_op i ?ct ?ut" w] rt1 by simp_all
  have tl: "tryLock i ?ct ?ut w = ((False, None), w1)"
    using rt1 f1 assms(1-3) rng by (simp add: tryLock_unfold)
  obtain f2 w2 where rt2: "round_trip (OpFindOne i) w1 = (f2, w2)"
    by (cases "round_trip (OpFindOne i) w1")
  have f2: "f2 = None" and nf2: "no_faults w2"
    using round_trip_no_faults [OF nf1, of "OpFindOne i"] rt2 by simp_all
  have d2: "docs w2 = docs w" and l2: "oplog w2 = oplog w @ [acquire_op i ?ct ?ut, OpFindOne i]"
    using round_trip_docs [of "OpFindOne i" w1]
      round_trip_oplog [of "OpFindOne i" w1] rt2 d1 l1 by simp_all
  have ex: "exists i w1 = ((True, None), w2)"
    using rt2 f2 d1 assms by (simp add: exists_unfold)
  have "Lock m i w = Lock_retry i ?ct ?ut (lockRetryCount m) w2"
    using tl ex by (simp add: Lock_def Let_def)
  then show ?thesis
    using Lock_retry_held [of w2 i d ?ut ?ct "lockRetryCount m"] assms(1-3) rng d2 l2 nf2
    by simp
qed


section \<open>Retry budget of zero\<close>

text \<open>
  C5: with \<^verbatim>\<open>lockRetryCount = 0\<close> and a record that exists, is locked (its state is
  not 0) and is not stale for this caller, \<^verbatim>\<open>Lock\<close> returns \<^verbatim>\<open>ok = false\<close>,
  \<^verbatim>\<open>absent = false\<close> and no error, when no store call fails. The trace shows the one
  conditional acquire and the existence probe and no retry; the collection is unchanged.
  This is so whenever the two times of the call can be encoded; when they cannot, the
  driver's error is returned and nothing has been sent.
\<close>

theorem Lock_retry_budget_zero:
  assumes "lockRetryCount m = 0"
    and "docs w i = Some d" and "state d \<noteq> 0"
    and "\<not> time d < uint (wall w - maxLockTime m)"
    and "no_faults w"
  shows "if in_int64_range m w
         then fst (Lock m i w) = (False, False, None)
            \<and> oplog (snd (Lock m i w)) =
                oplog w @ [acquire_op i (wall w) (wall w - maxLockTime m), OpFindOne i]
            \<and> docs (snd (Lock m i w)) = docs w
         else (\<exists>v. fst (Lock m i w) = (False, False, Some (MarshalError v)))
            \<and> snd (Lock m i w) = w"
proof (cases "in_int64_range m w")
  case True
  then show ?thesis
    using Lock_held [OF assms(2-5) True] assms(1) by simp
next
  case False
  then show ?thesis
    using Lock_overflow [OF False, of i] by simp
qed

theorem Lock_retry_budget_zero_witness:
  "lockRetryCount \<lparr>lockRetryCount = 0, maxLockTime = 60000\<rparr> = 0
   \<and> docs \<lparr>docs = [''order-42'' \<mapsto> \<lparr>state = 1, time = 1700000000000\<rparr>],
            wall = 1700000030000, script = [], oplog = []\<rparr> ''order-42''
       = Some \<lparr>state = 1, time = 1700000000000\<rparr>
   \<and> state \<lparr>state = 1, time = 1700000000000\<rparr> \<noteq> 0
   \<and> \<not> time \<lparr>state = 1, time = 1700000000000\<rparr> < uint (1700000030000 - 60000 :: u64)
   \<and> no_faults \<lparr>docs = [''order-42'' \<mapsto> \<lparr>state = 1, time = 1700000000000\<rparr>],
            wall = 1700000030000, script = [], oplog = []\<rparr>
   \<and> in_int64_range \<lparr>lockRetryCount = 0, maxLockTime = 60000\<rparr>
        \<lparr>docs = [''order-42'' \<mapsto> \<lparr>state = 1, time = 1700000000000\<rparr>],
            wall = 1700000030000, script = [], oplog = []\<rparr>
   \<and> fst (Lock \<lparr>lockRetryCount = 0, maxLockTime = 60000\<rparr> ''order-42''
          \<lparr>docs = [''order-42'' \<mapsto> \<lparr>state = 1, time = 1700000000000\<rparr>],
            wall = 1700000030000, script = [], oplog = []\<rparr>) = (False, False, None)
   \<and> oplog (snd (Lock \<lparr>lockRetryCount = 0, maxLockTime = 60000\<rparr> ''order-42''
          \<lparr>docs = [''order-42'' \<mapsto> \<lparr>state = 1, time = 1700000000000\<rparr>],
            wall = 1700000030000, script = [], oplog = []\<rparr>))
       = [acquire_op ''order-42'' 1700000030000 1699999970000, OpFindOne ''order-42'']"
  using Lock_retry_budget_zero
    [of "\<lparr>lockRetryCount = 0, maxLockTime = 60000\<rparr>"
        "\<lparr>docs = [''order-42'' \<mapsto> \<lparr>state = 1, time = 1700000000000\<rparr>],
            wall = 1700000030000, script = [], oplog = []\<rparr>"
        "''order-42''" "\<lparr>state = 1, time = 1700000000000\<rparr>"]
  by (simp add: no_faults_def in_int64_range_def MaxInt64_def)

section \<open>The retry loop and the clock\<close>

text \<open>
  C3 says that every retry reads the clock again and recomputes the staleness threshold.
  The loop does not: it sends \<^verbatim>\<open>currTime\<close> and \<^verbatim>\<open>unlockTime\<close> as computed once on
  entry. Here the record was locked at 10000 with a hold time of 1000, and the caller
  enters at 10500; the first round trip takes 1000 ms, so from then on the caller's clock
  shows 11500 and the lock is stale by a fresh reading (10000 < 11500 - 1000). All three
  retries still send the threshold 9500 and the call returns without the lock.
\<close>

theorem Lock_retry_recompute_counterexample:
  "fst (Lock \<lparr>lockRetryCount = 3, maxLockTime = 1000\<rparr> ''order-42''
          \<lparr>docs = [''order-42'' \<mapsto> \<lparr>state = 1, time = 10000\<rparr>], wall = 10500,
            script = [\<lparr>fault = None, elapsed = 1000\<rparr>], oplog = []\<rparr>) = (False, False, None)
   \<and> oplog (snd (Lock \<lparr>lockRetryCount = 3, maxLockTime = 1000\<rparr> ''order-42''
          \<lparr>docs = [''order-42'' \<mapsto> \<lparr>state = 1, time = 10000\<rparr>], wall = 10500,
            script = [\<lparr>fault = None, elapsed = 1000\<rparr>], oplog = []\<rparr>))
       = [acquire_op ''order-42'' 10500 9500, OpFindOne ''order-42'',
          acquire_op ''order-42'' 10500 9500, acquire_op ''order-42'' 10500 9500,
          acquire_op ''order-42'' 10500 9500]
   \<and> wall (snd (tryLock ''order-42'' 10500 9500
          \<lparr>docs = [''order-42'' \<mapsto> \<lparr>state = 1, time = 10000\<rparr>], wall = 10500,
            script = [\<lparr>fault = None, elapsed = 1000\<rparr>], oplog = []\<rparr>)) = 11500
   \<and> (10000 :: u64) < 11500 - 1000"
  by (simp add: Lock_def tryLock_def FindOneAndUpdate_def exists_def FindOne_def
      round_trip_def acquire_op_def upd_overflow_def MaxInt64_def)

text \<open>
  C3 as amended: the retries of one \<^verbatim>\<open>Lock\<close> call all re-issue the conditional acquire
  with the \<^verbatim>\<open>currTime\<close> and \<^verbatim>\<open>unlockTime\<close> computed once on entry. So when the
  record is locked and not stale on entry and stays as it is, the call sends the first
  acquire, the probe and \<^verbatim>\<open>lockRetryCount\<close> identical acquires, and returns
  \<^verbatim>\<open>(false, false, nil)\<close>, however much time passes during the round trips. This is so
  whenever the two times of the call can be encoded; when they cannot, the driver's error
  is returned and nothing has been sent.
\<close>

theorem Lock_retries_reuse_entry_times:
  assumes "docs w i = Some d" and "state d \<noteq> 0"
    and "\<not> time d < uint (wall w - maxLockTime m)"
    and "no_faults w"
  shows "if in_int64_range m w
         then fst (Lock m i w) = (False, False, None)
            \<and> oplog (snd (Lock m i w)) =
                oplog w @ [acquire_op i (wall w) (wall w - maxLockTime m), OpFindOne i]
                  @ replicate (nat (lockRetryCount m))
                      (acquire_op i (wall w) (wall w - maxLockTime m))
         else (\<exists>v. fst (Lock m i w) = (False, False, Some (MarshalError v)))
            \<and> snd (Lock m i w) = w"
proof (cases "in_int64_range m w")
  case True
  then show ?thesis
    using Lock_held [OF assms True] by simp
next
  case False
  then show ?thesis
    using Lock_overflow [OF False, of i] by simp
qed

theorem Lock_retries_reuse_entry_times_witness:
  "docs \<lparr>docs = [''order-42'' \<mapsto> \<lparr>state = 1, time = 10000\<rparr>], wall = 10500,
          script = [\<lparr>fault = None, elapsed = 1000\<rparr>, \<lparr>fault = None, elapsed = 5000\<rparr>],
          oplog = []\<rparr> ''order-42'' = Some \<lparr>state = 1, time = 10000\<rparr>
   \<and> state \<lparr>state = 1, time = 10000\<rparr> \<noteq> 0
   \<and> \<not> time \<lparr>state = 1, time = 10000\<rparr> < uint (10500 - 1000 :: u64)
   \<and> no_faults \<lparr>docs = [''order-42'' \<mapsto> \<lparr>state = 1, time = 10000\<rparr>], wall = 10500,
          script = [\<lparr>fault = None, elapsed = 1000\<rparr>, \<lparr>fault = None, elapsed = 5000\<rparr>],
          oplog = []\<rparr>
   \<and> in_int64_range \<lparr>lockRetryCount = 2, maxLockTime = 1000\<rparr>
        \<lparr>docs = [''order-42'' \<mapsto> \<lparr>state = 1, time = 10000\<rparr>], wall = 10500,
          script = [\<lparr>fault = None, elapsed = 1000\<rparr>, \<lparr>fault = None, elapsed = 5000\<rparr>],
          oplog = []\<rparr>
   \<and> fst (Lock \<lparr>lockRetryCount = 2, maxLockTime = 1000\<rparr> ''order-42''
          \<lparr>docs = [''order-42'' \<mapsto> \<lparr>state = 1, time = 10000\<rparr>], wall = 10500,
            script = [\<lparr>fault = None, elapsed = 1000\<rparr>, \<lparr>fault = None, elapsed = 5000\<rparr>],
            oplog = []\<rparr>) = (False, False, None)
   \<and> oplog (snd (Lock \<lparr>lockRetryCount = 2, maxLockTime = 1000\<rparr> ''order-42''
          \<lparr>docs = [''order-42'' \<mapsto> \<lparr>state = 1, time = 10000\<rparr>], wall = 10500,
            script = [\<lparr>fault = None, elapsed = 1000\<rparr>, \<lparr>fault = None, elapsed = 5000\<rparr>],
            oplog = []\<rparr>))
       = [acquire_op ''order-42'' 10500 9500, OpFindOne ''order-42'',
          acquire_op ''order-42'' 10500 9500, acquire_op ''order-42'' 10500 9500]"
proof -
  have twice: "replicate 2 x = [x, x]" for x :: "string op"
    by (simp add: numeral_2_eq_2)
  show ?thesis
    using Lock_retries_reuse_entry_times
      [of "\<lparr>docs = [''order-42'' \<mapsto> \<lparr>state = 1, time = 10000\<rparr>], wall = 10500,
            script = [\<lparr>fault = None, elapsed = 1000\<rparr>, \<lparr>fault = None, elapsed = 5000\<rparr>],
            oplog = []\<rparr>"
          "''order-42''" "\<lparr>state = 1, time = 10000\<rparr>"
          "\<lparr>lockRetryCount = 2, maxLockTime = 1000\<rparr>"]
    by (simp add: no_faults_def twice in_int64_range_def MaxInt64_def)
qed

section \<open>Stale recovery\<close>




section \<open>The staleness threshold below the hold time\<close>

text \<open>
  C10 says that when \<^verbatim>\<open>currTime < maxLockTime\<close> the wrapped threshold makes every
  record look stale, so that a lock that is held can be taken over. The threshold does
  wrap, here to \<^verbatim>\<open>2^64 - 500\<close>, but that value is above \<^verbatim>\<open>math.MaxInt64\<close>: the
  driver cannot encode the filter, nothing is sent, and \<^verbatim>\<open>Lock\<close> returns the encoding
  error. The record, locked at 500 and looked at when the clock shows 500 with a hold
  time of 1000, stays as it is.
\<close>

theorem Lock_threshold_takeover_counterexample:
  "(500 :: u64) < 1000
   \<and> fst (Lock \<lparr>lockRetryCount = 300, maxLockTime = 1000\<rparr> ''order-42''
          \<lparr>docs = [''order-42'' \<mapsto> \<lparr>state = 1, time = 500\<rparr>], wall = 500,
            script = [], oplog = []\<rparr>)
       = (False, False, Some (MarshalError 18446744073709551116))
   \<and> snd (Lock \<lparr>lockRetryCount = 300, maxLockTime = 1000\<rparr> ''order-42''
          \<lparr>docs = [''order-42'' \<mapsto> \<lparr>state = 1, time = 500\<rparr>], wall = 500,
            script = [], oplog = []\<rparr>)
       = \<lparr>docs = [''order-42'' \<mapsto> \<lparr>state = 1, time = 500\<rparr>], wall = 500,
            script = [], oplog = []\<rparr>"
  by (simp add: Lock_def tryLock_def FindOneAndUpdate_def MaxInt64_def)

text \<open>
  C10 as amended: \<^verbatim>\<open>unlockTime := currTime - mutexes.maxLockTime\<close> is a subtraction of
  \<^verbatim>\<open>uint64\<close> values; when \<^verbatim>\<open>currTime < maxLockTime\<close> it wraps to
  \<^verbatim>\<open>2^64 - (maxLockTime - currTime)\<close>. When the two differ by at most \<^verbatim>\<open>2^63\<close> the
  wrapped threshold is above \<^verbatim>\<open>math.MaxInt64\<close> and cannot be encoded: \<^verbatim>\<open>Lock\<close>
  returns \<^verbatim>\<open>ok = false\<close>, \<^verbatim>\<open>absent = false\<close> and the encoding error for that
  threshold, without sending anything. No record is matched or changed, whether it is
  locked or free, and whatever its timestamp.
\<close>

theorem Lock_threshold_overflow:
  assumes "wall w < maxLockTime m"
    and "unat (maxLockTime m) - unat (wall w) \<le> 2 ^ 63"
  shows "unat (wall w - maxLockTime m) = 2 ^ 64 - (unat (maxLockTime m) - unat (wall w))
       \<and> \<not> wall w - maxLockTime m \<le> MaxInt64
       \<and> Lock m i w = ((False, False, Some (MarshalError (wall w - maxLockTime m))), w)"
proof -
  have lt: "unat (wall w) < unat (maxLockTime m)"
    using assms(1) by (simp add: word_less_nat_alt)
  have bound: "unat (maxLockTime m) < 2 ^ 64"
    using unsigned_less [of "maxLockTime m", where 'a = nat] by simp
  have wrap: "unat (wall w - maxLockTime m) = unat (wall w) + 2 ^ 64 - unat (maxLockTime m)"
    using lt by (simp add: unat_sub_if_size word_size)
  have thr: "unat (wall w - maxLockTime m) = 2 ^ 64 - (unat (maxLockTime m) - unat (wall w))"
    using wrap lt bound by linarith
  have big: "\<not> wall w - maxLockTime m \<le> MaxInt64"
    using thr assms(2) by (simp add: word_le_nat_alt MaxInt64_def)
  have out: "\<not> in_int64_range m w"
    using big by (simp add: in_int64_range_def)
  show ?thesis
    using thr big Lock_overflow [OF out, of i] by simp
qed

theorem Lock_threshold_overflow_witness:
  "wall \<lparr>docs = [''order-42'' \<mapsto> \<lparr>state = 1, time = 30000\<rparr>], wall = 30000,
          script = [], oplog = []\<rparr> < maxLockTime NewMongodbMutexes
   \<and> unat (maxLockTime NewMongodbMutexes) - unat (30000 :: u64) \<le> 2 ^ 63
   \<and> unat (30000 - 60000 :: u64) = 2 ^ 64 - 30000
   \<and> Lock NewMongodbMutexes ''order-42''
          \<lparr>docs = [''order-42'' \<mapsto> \<lparr>state = 1, time = 30000\<rparr>], wall = 30000,
            script = [], oplog = []\<rparr>
       = ((False, False, Some (MarshalError (30000 - 60000))),
          \<lparr>docs = [''order-42'' \<mapsto> \<lparr>state = 1, time = 30000\<rparr>], wall = 30000,
            script = [], oplog = []\<rparr>)"
  using Lock_threshold_overflow
    [of "\<lparr>docs = [''order-42'' \<mapsto> \<lparr>state = 1, time = 30000\<rparr>], wall = 30000,
          script = [], oplog = []\<rparr>"
        NewMongodbMutexes "''order-42''"]
  by (simp add: NewMongodbMutexes_def defaultMaxLockTime_def)

section \<open>Locking an identity that has no record\<close>

text \<open>
  C4: when the identity has no lock record, \<^verbatim>\<open>Lock\<close> never returns \<^verbatim>\<open>ok = true\<close> and
  leaves the collection as it is, whatever the store calls do. When no store call fails
  it sends the conditional acquire, then the existence probe, and returns
  \<^verbatim>\<open>ok = false\<close>, \<^verbatim>\<open>absent = true\<close> and no error. This is so whenever the two times
  of the call can be encoded; when they cannot, the driver's error is returned and
  nothing has been sent.
\<close>

theorem Lock_absent:
  assumes "docs w i = None"
  shows "\<not> fst (fst (Lock m i w))
       \<and> docs (snd (Lock m i w)) = docs w
       \<and> (no_faults w \<longrightarrow>
            (if in_int64_range m w
             then fst (Lock m i w) = (False, True, None)
                \<and> oplog (snd (Lock m i w)) =
                    oplog w @ [acquire_op i (wall w) (wall w - maxLockTime m), OpFindOne i]
             else (\<exists>v. fst (Lock m i w) = (False, False, Some (MarshalError v)))
                \<and> snd (Lock m i w) = w))"
proof -
  let ?ct = "wall w" and ?ut = "wall w - maxLockTime m"
  have never: "\<not> fst (fst (Lock m i w)) \<and> docs (snd (Lock m i w)) = docs w"
    using Lock_result [of m i w] assms by auto
  have ok: "fst (Lock m i w) = (False, True, None)
       \<and> oplog (snd (Lock m i w)) = oplog w @ [acquire_op i ?ct ?ut, OpFindOne i]"
    if nf: "no_faults w" and rng: "in_int64_range m w"
  proof -
    have enc: "?ut \<le> MaxInt64" "?ct \<le> MaxInt64"
      using rng by (simp_all add: in_int64_range_def)
    obtain f1 w1 where rt1: "round_trip (acquire_op i ?ct ?ut) w = (f1, w1)"
      by (cases "round_trip (acquire_op i ?ct ?ut) w")
    have f1: "f1 = None" and nf1: "no_faults w1"
      using round_trip_no_faults [OF nf, of "acquire_op i ?ct ?ut"] rt1 by simp_all
    have d1: "docs w1 = docs w" and l1: "oplog w1 = oplog w @ [acquire_op i ?ct ?ut]"
      using round_trip_docs [of "acquire_op i ?ct ?ut" w]
        round_trip_oplog [of "acquire_op i ?ct ?ut" w] rt1 by simp_all
    have tl: "tryLock i ?ct ?ut w = ((False, None), w1)"
      using rt1 f1 assms enc by (simp add: tryLock_unfold)
    obtain f2 w2 where rt2: "round_trip (OpFindOne i) w1 = (f2, w2)"
      by (cases "round_trip (OpFindOne i) w1")
    have f2: "f2 = None"
      using round_trip_no_faults [OF nf1, of "OpFindOne i"] rt2 by simp
    have l2: "oplog w2 = oplog w @ [acquire_op i ?ct ?ut, OpFindOne i]"
      using round_trip_oplog [of "OpFindOne i" w1] rt2 l1 by simp
    have ex: "exists i w1 = ((False, None), w2)"
      using rt2 f2 d1 assms by (simp add: exists_unfold)
    show ?thesis
      using tl ex l2 by (simp add: Lock_def Let_def)
  qed
  have bad: "(\<exists>v. fst (Lock m i w) = (False, False, Some (MarshalError v)))
       \<and> snd (Lock m i w) = w"
    if "\<not> in_int64_range m w"
    using Lock_overflow [OF that, of i] by simp
  show ?thesis
    using never ok bad by simp
qed

theorem Lock_absent_witness:
  "docs \<lparr>docs = [''order-42'' \<mapsto> \<lparr>state = 1, time = 1700000000000\<rparr>],
          wall = 1700000030000, script = [], oplog = []\<rparr> ''order-7'' = None
   \<and> no_faults \<lparr>docs = [''order-42'' \<mapsto> \<lparr>state = 1, time = 1700000000000\<rparr>],
          wall = 1700000030000, script = [], oplog = []\<rparr>
   \<and> in_int64_range NewMongodbMutexes
        \<lparr>docs = [''order-42'' \<mapsto> \<lparr>state = 1, time = 1700000000000\<rparr>],
          wall = 1700000030000, script = [], oplog = []\<rparr>
   \<and> fst (Lock NewMongodbMutexes ''order-7''
          \<lparr>docs = [''order-42'' \<mapsto> \<lparr>state = 1, time = 1700000000000\<rparr>],
            wall = 1700000030000, script = [], oplog = []\<rparr>) = (False, True, None)
   \<and> oplog (snd (Lock NewMongodbMutexes ''order-7''
          \<lparr>docs = [''order-42'' \<mapsto> \<lparr>state = 1, time = 1700000000000\<rparr>],
            wall = 1700000030000, script = [], oplog = []\<rparr>))
       = [acquire_op ''order-7'' 1700000030000 1699999970000, OpFindOne ''order-7'']"
  using Lock_absent
    [of "\<lparr>docs = [''order-42'' \<mapsto> \<lparr>state = 1, time = 1700000000000\<rparr>],
          wall = 1700000030000, script = [], oplog = []\<rparr>"
        "''order-7''" NewMongodbMutexes]
  by (simp add: no_faults_def NewMongodbMutexes_def defaultMaxLockTime_def
      in_int64_range_def MaxInt64_def)

section \<open>Create and lock\<close>

lemma has_code_11000_iff: "has_code_11000 ws \<longleftrightarrow> (\<exists>we\<in>set ws. Code we = 11000)"
  by (induction ws) auto

lemma isDup_iff:
  "isDup e \<longleftrightarrow>
     (\<exists>ws. errors_As_WriteException e = Some ws \<and> (\<exists>we\<in>set ws. Code we = 11000))"
  by (simp add: isDup_def has_code_11000_iff split: option.splits)

lemma InsertOne_unfold:
  assumes "doc_time nd \<le> MaxInt64"
  shows "InsertOne i nd w =
     (case round_trip (OpInsertOne i) w of
        (Some e, w') \<Rightarrow> (Some e, w')
      | (None, w') \<Rightarrow>
          (case docs w i of
             Some _ \<Rightarrow> (Some (WriteException [WriteError 11000 ''E11000 duplicate key error'']), w')
           | None \<Rightarrow>
               (None, w'\<lparr>docs := (docs w)
                  (i \<mapsto> \<lparr>state = doc_state nd, time = uint (doc_time nd)\<rparr>)\<rparr>)))"
proof -
  obtain f w' where rt: "round_trip (OpInsertOne i) w = (f, w')"
    by (cases "round_trip (OpInsertOne i) w")
  have d: "docs w' = docs w"
    using round_trip_docs [of "OpInsertOne i" w] rt by simp
  show ?thesis
    using rt d assms by (auto simp: InsertOne_def split: option.splits)
qed

lemma NewAndLock_overflow:
  assumes "\<not> wall w \<le> MaxInt64"
  shows "NewAndLock i w = ((False, Some (MarshalError (wall w))), w)"
  using assms by (simp add: NewAndLock_def Let_def InsertOne_def isDup_def)

lemma NewAndLock_no_faults:
  assumes "no_faults w" and enc: "wall w \<le> MaxInt64"
  shows "docs w i = None \<longrightarrow>
           fst (NewAndLock i w) = (True, None)
           \<and> docs (snd (NewAndLock i w))
               = (docs w)(i \<mapsto> \<lparr>state = 1, time = uint (wall w)\<rparr>)"
    and "docs w i \<noteq> None \<longrightarrow>
           fst (NewAndLock i w) = (False, None) \<and> docs (snd (NewAndLock i w)) = docs w"
proof -
  obtain f w' where rt: "round_trip (OpInsertOne i) w = (f, w')"
    by (cases "round_trip (OpInsertOne i) w")
  have f: "f = None"
    using round_trip_no_faults [OF assms(1), of "OpInsertOne i"] rt by simp
  have d: "docs w' = docs w"
    using round_trip_docs [of "OpInsertOne i" w] rt by simp
  show "docs w i = None \<longrightarrow>
           fst (NewAndLock i w) = (True, None)
           \<and> docs (snd (NewAndLock i w))
               = (docs w)(i \<mapsto> \<lparr>state = 1, time = uint (wall w)\<rparr>)"
    using rt f enc by (simp add: NewAndLock_def Let_def InsertOne_unfold)
  show "docs w i \<noteq> None \<longrightarrow>
           fst (NewAndLock i w) = (False, None) \<and> docs (snd (NewAndLock i w)) = docs w"
    using rt f d enc by (auto simp: NewAndLock_def Let_def InsertOne_unfold isDup_def)
qed

text \<open>
  C6: \<^verbatim>\<open>NewAndLock\<close> returns \<^verbatim>\<open>ok = true\<close> when the insert succeeds. When the insert
  fails with an error that is, or wraps, a write exception with a write error of code
  11000, it returns \<^verbatim>\<open>ok = false\<close> and no error, and in no other case; every other
  insert error is returned as it is. With a store that does not fail otherwise and a
  clock reading that can be encoded, the duplicate-key outcome is exactly the case of a
  record that exists already, which is left as it is; with no record the call inserts
  one that is locked at the caller's time. A clock reading above \<^verbatim>\<open>math.MaxInt64\<close>
  cannot be encoded: the driver's error is returned and nothing has been sent.
\<close>

theorem NewAndLock_outcomes:
  "(fst (InsertOne i \<lparr>doc_state = 1, doc_time = wall w\<rparr> w) = None \<longrightarrow>
      fst (NewAndLock i w) = (True, None))
   \<and> (\<forall>e. fst (InsertOne i \<lparr>doc_state = 1, doc_time = wall w\<rparr> w) = Some e \<longrightarrow>
        fst (NewAndLock i w) =
          (if \<exists>ws. errors_As_WriteException e = Some ws \<and> (\<exists>we\<in>set ws. Code we = 11000)
           then (False, None) else (False, Some e)))
   \<and> (fst (NewAndLock i w) = (False, None) \<longleftrightarrow>
        (\<exists>e ws. fst (InsertOne i \<lparr>doc_state = 1, doc_time = wall w\<rparr> w) = Some e
           \<and> errors_As_WriteException e = Some ws \<and> (\<exists>we\<in>set ws. Code we = 11000)))
   \<and> (no_faults w \<longrightarrow>
        (if wall w \<le> MaxInt64
         then (docs w i = None \<longrightarrow>
                 fst (NewAndLock i w) = (True, None)
                 \<and> docs (snd (NewAndLock i w))
                     = (docs w)(i \<mapsto> \<lparr>state = 1, time = uint (wall w)\<rparr>))
            \<and> (docs w i \<noteq> None \<longrightarrow>
                 fst (NewAndLock i w) = (False, None)
                 \<and> docs (snd (NewAndLock i w)) = docs w)
         else NewAndLock i w = ((False, Some (MarshalError (wall w))), w)))"
proof -
  obtain r w' where ins: "InsertOne i \<lparr>doc_state = 1, doc_time = wall w\<rparr> w = (r, w')"
    by (cases "InsertOne i \<lparr>doc_state = 1, doc_time = wall w\<rparr> w")
  have res: "fst (NewAndLock i w) =
      (case r of None \<Rightarrow> (True, None)
       | Some e \<Rightarrow> if isDup e then (False, None) else (False, Some e))"
    using ins by (simp add: NewAndLock_def Let_def split: option.splits)
  have last: "no_faults w \<longrightarrow>
        (if wall w \<le> MaxInt64
         then (docs w i = None \<longrightarrow>
                 fst (NewAndLock i w) = (True, None)
                 \<and> docs (snd (NewAndLock i w))
                     = (docs w)(i \<mapsto> \<lparr>state = 1, time = uint (wall w)\<rparr>))
            \<and> (docs w i \<noteq> None \<longrightarrow>
                 fst (NewAndLock i w) = (False, None)
                 \<and> docs (snd (NewAndLock i w)) = docs w)
         else NewAndLock i w = ((False, Some (MarshalError (wall w))), w))"
    using NewAndLock_no_faults [of w i] NewAndLock_overflow [of w i] by simp
  have first: "(fst (InsertOne i \<lparr>doc_state = 1, doc_time = wall w\<rparr> w) = None \<longrightarrow>
      fst (NewAndLock i w) = (True, None))
   \<and> (\<forall>e. fst (InsertOne i \<lparr>doc_state = 1, doc_time = wall w\<rparr> w) = Some e \<longrightarrow>
        fst (NewAndLock i w) =
          (if \<exists>ws. errors_As_WriteException e = Some ws \<and> (\<exists>we\<in>set ws. Code we = 11000)
           then (False, None) else (False, Some e)))
   \<and> (fst (NewAndLock i w) = (False, None) \<longleftrightarrow>
        (\<exists>e ws. fst (InsertOne i \<lparr>doc_state = 1, doc_time = wall w\<rparr> w) = Some e
           \<and> errors_As_WriteException e = Some ws \<and> (\<exists>we\<in>set ws. Code we = 11000)))"
  proof (cases r)
    case None
    then show ?thesis
      using res ins by simp
  next
    case (Some e)
    then show ?thesis
      using res ins isDup_iff [of e] by auto
  qed
  show ?thesis
    using first last by (intro conjI) blast+
qed

theorem NewAndLock_outcomes_witness:
  "fst (InsertOne ''order-42'' \<lparr>doc_state = 1, doc_time = 1700000030000\<rparr>
          \<lparr>docs = Map.empty, wall = 1700000030000,
            script = [\<lparr>fault = Some (TransportError ''connection reset''), elapsed = 30\<rparr>],
            oplog = []\<rparr>) = Some (TransportError ''connection reset'')
   \<and> fst (NewAndLock ''order-42''
          \<lparr>docs = Map.empty, wall = 1700000030000,
            script = [\<lparr>fault = Some (TransportError ''connection reset''), elapsed = 30\<rparr>],
            oplog = []\<rparr>) = (False, Some (TransportError ''connection reset''))
   \<and> no_faults \<lparr>docs = [''order-42'' \<mapsto> \<lparr>state = 0, time = 1700000000000\<rparr>],
          wall = 1700000030000, script = [], oplog = []\<rparr>
   \<and> docs \<lparr>docs = [''order-42'' \<mapsto> \<lparr>state = 0, time = 1700000000000\<rparr>],
          wall = 1700000030000, script = [], oplog = []\<rparr> ''order-42'' \<noteq> None
   \<and> fst (NewAndLock ''order-42''
          \<lparr>docs = [''order-42'' \<mapsto> \<lparr>state = 0, time = 1700000000000\<rparr>],
            wall = 1700000030000, script = [], oplog = []\<rparr>) = (False, None)"
  using NewAndLock_outcomes
    [of "''order-42''"
        "\<lparr>docs = Map.empty, wall = 1700000030000,
            script = [\<lparr>fault = Some (TransportError ''connection reset''), elapsed = 30\<rparr>],
            oplog = []\<rparr>"]
    NewAndLock_outcomes
    [of "''order-42''"
        "\<lparr>docs = [''order-42'' \<mapsto> \<lparr>state = 0, time = 1700000000000\<rparr>],
            wall = 1700000030000, script = [], oplog = []\<rparr>"]
  by (simp add: InsertOne_def round_trip_def no_faults_def MaxInt64_def)

section \<open>Release\<close>

lemma UpdateOne_unlock:
  "docs (snd (UpdateOne i \<lparr>set_state = Some 0, set_time = None\<rparr> w)) = docs w
   \<or> (\<exists>d. docs w i = Some d
         \<and> docs (snd (UpdateOne i \<lparr>set_state = Some 0, set_time = None\<rparr> w))
             = (docs w)(i \<mapsto> d\<lparr>state := 0\<rparr>))"
proof -
  let ?u = "\<lparr>set_state = Some 0, set_time = None\<rparr>"
  obtain f w' where rt: "round_trip (OpUpdateOne i ?u) w = (f, w')"
    by (cases "round_trip (OpUpdateOne i ?u) w")
  have d: "docs w' = docs w"
    using round_trip_docs [of "OpUpdateOne i ?u" w] rt by simp
  show ?thesis
    using rt d
    by (auto simp: UpdateOne_def apply_upd_def upd_overflow_def split: option.splits)
qed

lemma UpdateOne_unlock_no_faults:
  assumes "no_faults w"
  shows "docs (snd (UpdateOne i \<lparr>set_state = Some 0, set_time = None\<rparr> w))
           = (case docs w i of None \<Rightarrow> docs w | Some d \<Rightarrow> (docs w)(i \<mapsto> d\<lparr>state := 0\<rparr>))
       \<and> no_faults (snd (UpdateOne i \<lparr>set_state = Some 0, set_time = None\<rparr> w))"
proof -
  let ?u = "\<lparr>set_state = Some 0, set_time = None\<rparr>"
  obtain f w' where rt: "round_trip (OpUpdateOne i ?u) w = (f, w')"
    by (cases "round_trip (OpUpdateOne i ?u) w")
  have f: "f = None" and nf: "no_faults w'"
    using round_trip_no_faults [OF assms, of "OpUpdateOne i ?u"] rt by simp_all
  have d: "docs w' = docs w"
    using round_trip_docs [of "OpUpdateOne i ?u" w] rt by simp
  show ?thesis
    using rt f nf d
    by (auto simp: UpdateOne_def apply_upd_def upd_overflow_def no_faults_def
        split: option.splits)
qed

lemma UnlockAll_each:
  "case docs w i of
     None \<Rightarrow> docs (UnlockAll ids w) i = None
   | Some d \<Rightarrow> docs (UnlockAll ids w) i = Some d
               \<or> docs (UnlockAll ids w) i = Some (d\<lparr>state := 0\<rparr>)"
proof (induction ids arbitrary: w)
  case Nil
  show ?case by (simp split: option.splits)
next
  case (Cons a ids)
  let ?w1 = "snd (UpdateOne a \<lparr>set_state = Some 0, set_time = None\<rparr> w)"
  show ?case
    using Cons.IH [of ?w1] UpdateOne_unlock [of a w]
    by (auto split: option.splits if_splits)
qed

lemma UnlockAll_other: "i \<notin> set ids \<Longrightarrow> docs (UnlockAll ids w) i = docs w i"
proof (induction ids arbitrary: w)
  case Nil
  show ?case by simp
next
  case (Cons a ids)
  let ?w1 = "snd (UpdateOne a \<lparr>set_state = Some 0, set_time = None\<rparr> w)"
  have "docs ?w1 i = docs w i"
    using UpdateOne_unlock [of a w] Cons.prems by auto
  then show ?case
    using Cons.IH [of ?w1] Cons.prems by simp
qed

lemma UnlockAll_no_faults:
  assumes "no_faults w"
  shows "no_faults (UnlockAll ids w)
       \<and> (\<forall>i\<in>set ids. \<forall>d. docs w i = Some d \<longrightarrow>
            docs (UnlockAll ids w) i = Some (d\<lparr>state := 0\<rparr>))"
  using assms
proof (induction ids arbitrary: w)
  case Nil
  then show ?case by simp
next
  case (Cons a ids)
  let ?w1 = "snd (UpdateOne a \<lparr>set_state = Some 0, set_time = None\<rparr> w)"
  note step = UpdateOne_unlock_no_faults [OF Cons.prems, of a]
  note ih = Cons.IH [of ?w1, OF step [THEN conjunct2]]
  have "docs (UnlockAll ids ?w1) i = Some (d\<lparr>state := 0\<rparr>)"
    if mem: "i \<in> set (a # ids)" and d: "docs w i = Some d" for i d
  proof (cases "i \<in> set ids")
    case True
    have "docs ?w1 i = Some d \<or> docs ?w1 i = Some (d\<lparr>state := 0\<rparr>)"
      using step d by (auto split: option.splits)
    then show ?thesis
      using ih True by auto
  next
    case False
    then have "i = a"
      using mem by simp
    then have "docs ?w1 i = Some (d\<lparr>state := 0\<rparr>)"
      using step d by simp
    then show ?thesis
      using UnlockAll_other [OF False, of ?w1] by simp
  qed
  then show ?case
    using ih by simp
qed

text \<open>
  C7: \<^verbatim>\<open>UnlockAll\<close> returns nothing to its caller, so no error can be reported. It
  neither deletes nor creates a record; a record is left as it was or differs only in
  its state, which is then 0, so \<^verbatim>\<open>time\<close> is never changed; records of identities that
  are not in the list are untouched. When no store call fails, every record of the list
  has state 0 afterwards, and after a second run as well.
\<close>

theorem UnlockAll_frame:
  "dom (docs (UnlockAll ids w)) = dom (docs w)
   \<and> (\<forall>i d. docs w i = Some d \<longrightarrow>
         (docs (UnlockAll ids w) i = Some d \<or> docs (UnlockAll ids w) i = Some (d\<lparr>state := 0\<rparr>))
         \<and> (\<forall>d'. docs (UnlockAll ids w) i = Some d' \<longrightarrow> time d' = time d))
   \<and> (\<forall>i. i \<notin> set ids \<longrightarrow> docs (UnlockAll ids w) i = docs w i)
   \<and> (no_faults w \<longrightarrow>
        (\<forall>i d. i \<in> set ids \<and> docs w i = Some d \<longrightarrow>
           docs (UnlockAll ids w) i = Some (d\<lparr>state := 0\<rparr>)
           \<and> docs (UnlockAll ids (UnlockAll ids w)) i = Some (d\<lparr>state := 0\<rparr>)))"
proof -
  have each: "case docs w i of
       None \<Rightarrow> docs (UnlockAll ids w) i = None
     | Some d \<Rightarrow> docs (UnlockAll ids w) i = Some d
                 \<or> docs (UnlockAll ids w) i = Some (d\<lparr>state := 0\<rparr>)" for i
    by (rule UnlockAll_each)
  have dom_eq: "dom (docs (UnlockAll ids w)) = dom (docs w)"
  proof (rule set_eqI)
    fix i
    show "i \<in> dom (docs (UnlockAll ids w)) \<longleftrightarrow> i \<in> dom (docs w)"
      using each [of i] by (auto split: option.splits)
  qed
  have frame: "(docs (UnlockAll ids w) i = Some d \<or> docs (UnlockAll ids w) i = Some (d\<lparr>state := 0\<rparr>))
         \<and> (\<forall>d'. docs (UnlockAll ids w) i = Some d' \<longrightarrow> time d' = time d)"
    if "docs w i = Some d" for i d
    using each [of i] that by auto
  have twice: "docs (UnlockAll ids w) i = Some (d\<lparr>state := 0\<rparr>)
           \<and> docs (UnlockAll ids (UnlockAll ids w)) i = Some (d\<lparr>state := 0\<rparr>)"
    if nf: "no_faults w" and mem: "i \<in> set ids" and d: "docs w i = Some d" for i d
  proof -
    have first: "no_faults (UnlockAll ids w)"
      and one: "docs (UnlockAll ids w) i = Some (d\<lparr>state := 0\<rparr>)"
      using UnlockAll_no_faults [OF nf, of ids] mem d by simp_all
    have "docs (UnlockAll ids (UnlockAll ids w)) i = Some (d\<lparr>state := 0\<rparr>\<lparr>state := 0\<rparr>)"
      using UnlockAll_no_faults [OF first, of ids] mem one by blast
    then show ?thesis
      using one by simp
  qed
  show ?thesis
    using dom_eq frame UnlockAll_other [of _ ids w] twice by blast
qed

theorem UnlockAll_frame_witness:
  "no_faults \<lparr>docs = [''order-42'' \<mapsto> \<lparr>state = 1, time = 1700000000000\<rparr>],
          wall = 1700000030000, script = [], oplog = []\<rparr>
   \<and> ''order-42'' \<in> set [''order-42'', ''order-7'']
   \<and> docs \<lparr>docs = [''order-42'' \<mapsto> \<lparr>state = 1, time = 1700000000000\<rparr>],
          wall = 1700000030000, script = [], oplog = []\<rparr> ''order-42''
       = Some \<lparr>state = 1, time = 1700000000000\<rparr>
   \<and> docs (UnlockAll [''order-42'', ''order-7'']
          \<lparr>docs = [''order-42'' \<mapsto> \<lparr>state = 1, time = 1700000000000\<rparr>],
            wall = 1700000030000, script = [], oplog = []\<rparr>) ''order-42''
       = Some \<lparr>state = 0, time = 1700000000000\<rparr>
   \<and> docs (UnlockAll [''order-42'', ''order-7''] (UnlockAll [''order-42'', ''order-7'']
          \<lparr>docs = [''order-42'' \<mapsto> \<lparr>state = 1, time = 1700000000000\<rparr>],
            wall = 1700000030000, script = [], oplog = []\<rparr>)) ''order-42''
       = Some \<lparr>state = 0, time = 1700000000000\<rparr>"
  using UnlockAll_frame
    [of "[''order-42'', ''order-7'']"
        "\<lparr>docs = [''order-42'' \<mapsto> \<lparr>state = 1, time = 1700000000000\<rparr>],
            wall = 1700000030000, script = [], oplog = []\<rparr>"]
  by (simp add: no_faults_def)

section \<open>The timestamp of a record over time\<close>





section \<open>Errors of FindOne in Load\<close>

text \<open>
  C9 says that \<^verbatim>\<open>Load\<close> returns the error of a failed \<^verbatim>\<open>FindOne\<close>. \<^verbatim>\<open>Load\<close> compares
  \<^verbatim>\<open>sr.Err()\<close> with \<^verbatim>\<open>mongo.ErrNoDocuments\<close> only; any other error is overwritten by the
  result of \<^verbatim>\<open>bson.Marshal\<close> on the empty \<^verbatim>\<open>result\<close>. So when \<^verbatim>\<open>FindOne\<close> fails with a
  transport error, \<^verbatim>\<open>Load\<close> returns a fresh entity with \<^verbatim>\<open>found = true\<close> and no error
  (or the error of marshalling the empty document), and never the transport error.
\<close>

theorem Load_drops_FindOne_error:
  "fst (Load bs store i
          (w\<lparr>script := \<lparr>fault = Some (TransportError msg), elapsed = dt\<rparr> # rest\<rparr>))
     = (case Marshal bs [] of
          Inl e \<Rightarrow> (zero_T store, False, Some e)
        | Inr doc \<Rightarrow> (Unmarshal bs doc (newZeroEntity store ()), True, None))"
  by (simp add: Load_def FindOne_def round_trip_def Err_def Decode_def split: sum.splits)

section \<open>One call, step by step\<close>

lemma lock_steps_done [simp]:
  "lock_steps k m i (PcDone ok absent e) w = (PcDone ok absent e, w)"
  by (induction k) auto

lemma lock_steps_retry:
  "lock_steps (Suc (nat n)) m i (PcRetry ct ut n) w =
     (case Lock_retry i ct ut n w of ((ok, absent, e), w') \<Rightarrow> (PcDone ok absent e, w'))"
proof (induction i ct ut n w rule: Lock_retry.induct)
  case (1 i ct ut n w)
  show ?case
  proof (cases "n > 0")
    case False
    then show ?thesis by simp
  next
    case True
    obtain ok e w' where tl: "tryLock i ct ut w = ((ok, e), w')"
      by (cases "tryLock i ct ut w") auto
    have suc: "nat n = Suc (nat (n - 1))"
      using True by (simp add: nat_diff_distrib Suc_nat_eq_nat_zadd1)
    show ?thesis
    proof (cases "e = None \<and> \<not> ok")
      case False
      then show ?thesis
        using True tl by (subst Lock_retry.simps) (auto split: option.splits)
    next
      case stay: True
      have lhs: "lock_steps (Suc (nat n)) m i (PcRetry ct ut n) w
          = lock_steps (Suc (nat (n - 1))) m i (PcRetry ct ut (n - 1)) w'"
        using True tl stay suc by simp
      have rhs: "Lock_retry i ct ut n w = Lock_retry i ct ut (n - 1) w'"
        using True tl stay by (subst Lock_retry.simps) simp
      show ?thesis
        using "1.IH" [OF True tl [symmetric] refl] stay lhs rhs by simp
    qed
  qed
qed

lemma lock_steps_Lock:
  "lock_steps (nat (lockRetryCount m) + 3) m i PcStart w =
     (case Lock m i w of ((ok, absent, e), w') \<Rightarrow> (PcDone ok absent e, w'))"
proof -
  let ?ct = "wall w" and ?ut = "wall w - maxLockTime m"
  obtain ok e w1 where tl: "tryLock i ?ct ?ut w = ((ok, e), w1)"
    by (cases "tryLock i ?ct ?ut w") auto
  obtain ex e2 w2 where exq: "exists i w1 = ((ex, e2), w2)"
    by (cases "exists i w1") auto
  have three: "nat (lockRetryCount m) + 3 = Suc (Suc (Suc (nat (lockRetryCount m))))"
    by simp
  show ?thesis
    unfolding three
    using tl exq lock_steps_retry [of "lockRetryCount m" m i ?ct ?ut w2]
    by (auto simp: Lock_def Let_def split: option.splits prod.splits)
qed

section \<open>Mutual exclusion\<close>

lemma lock_step_effect:
  assumes wf: "\<forall>ct ut. pc_times pc = Some (ct, ut) \<longrightarrow> ct \<in> R \<and> ut = ct - maxLockTime m"
    and now: "now \<in> R"
    and step: "lock_step m i pc (w\<lparr>wall := now\<rparr>) = (pc', w')"
  shows "(\<forall>ct ut. pc_times pc' = Some (ct, ut) \<longrightarrow> ct \<in> R \<and> ut = ct - maxLockTime m)
       \<and> ((acquired pc' = acquired pc \<and> docs w' = docs w)
          \<or> (\<not> acquired pc \<and> acquired pc'
              \<and> (\<exists>d ct. ct \<in> R \<and> docs w i = Some d
                    \<and> (state d = 0 \<or> time d < uint (ct - maxLockTime m))
                    \<and> docs w' = (docs w)(i \<mapsto> d\<lparr>state := 1, time := uint ct\<rparr>))))"
proof (cases pc)
  case PcStart
  let ?w0 = "w\<lparr>wall := now\<rparr>"
  obtain ok e w1 where tl: "tryLock i now (now - maxLockTime m) ?w0 = ((ok, e), w1)"
    by (cases "tryLock i now (now - maxLockTime m) ?w0") auto
  show ?thesis
    using PcStart step tl now tryLock_result [of i now "now - maxLockTime m" ?w0]
    by (auto simp: Let_def split: option.splits if_splits)
next
  case (PcProbe ct ut)
  let ?w0 = "w\<lparr>wall := now\<rparr>"
  obtain ex e w1 where exq: "exists i ?w0 = ((ex, e), w1)"
    by (cases "exists i ?w0") auto
  show ?thesis
    using PcProbe step exq wf exists_docs [of i ?w0]
    by (auto split: option.splits if_splits)
next
  case (PcRetry ct ut n)
  let ?w0 = "w\<lparr>wall := now\<rparr>"
  have times: "ct \<in> R" "ut = ct - maxLockTime m"
    using wf PcRetry by simp_all
  obtain ok e w1 where tl: "tryLock i ct ut ?w0 = ((ok, e), w1)"
    by (cases "tryLock i ct ut ?w0") auto
  show ?thesis
  proof (cases "n > 0")
    case False
    then show ?thesis
      using PcRetry step by auto
  next
    case True
    then show ?thesis
      using PcRetry step tl times tryLock_result [of i ct ut ?w0]
      by (auto split: option.splits if_splits)
  qed
next
  case (PcDone ok absent e)
  then show ?thesis
    using step by auto
qed

lemma filter_update_count:
  "j < length xs \<Longrightarrow>
     length (filter P (xs[j := x])) + (if P (xs ! j) then 1 else 0)
       = length (filter P xs) + (if P x then 1 else 0)"
proof (induction xs arbitrary: j)
  case Nil
  then show ?case by simp
next
  case (Cons a xs)
  show ?case
  proof (cases j)
    case 0
    then show ?thesis by simp
  next
    case (Suc k)
    then show ?thesis
      using Cons.IH [of k] Cons.prems by simp
  qed
qed

lemma interleave_exclusive:
  assumes H: "\<forall>t\<in>R. \<forall>now\<in>R. \<not> t < now - maxLockTime m"
  shows "snd ` set sched \<subseteq> R \<Longrightarrow>
     \<forall>pc\<in>set pcs. \<forall>ct ut. pc_times pc = Some (ct, ut) \<longrightarrow> ct \<in> R \<and> ut = ct - maxLockTime m \<Longrightarrow>
     length (filter acquired pcs) = 0
       \<or> (length (filter acquired pcs) = 1
           \<and> (\<exists>d. docs w i = Some d \<and> state d \<noteq> 0 \<and> time d \<in> uint ` R)) \<Longrightarrow>
     length (filter acquired (fst (interleave m i sched (pcs, w)))) \<le> 1"
proof (induction sched arbitrary: pcs w)
  case Nil
  then show ?case by auto
next
  case (Cons ev sched)
  obtain j now where ev: "ev = (j, now)"
    by (cases ev)
  have rest: "snd ` set sched \<subseteq> R" and now: "now \<in> R"
    using Cons.prems(1) ev by auto
  show ?case
  proof (cases "j < length pcs")
    case False
    then show ?thesis
      using Cons.IH [OF rest Cons.prems(2) Cons.prems(3)] ev by simp
  next
    case True
    obtain pc' w' where step: "lock_step m i (pcs ! j) (w\<lparr>wall := now\<rparr>) = (pc', w')"
      by (cases "lock_step m i (pcs ! j) (w\<lparr>wall := now\<rparr>)")
    have wfj: "\<forall>ct ut. pc_times (pcs ! j) = Some (ct, ut) \<longrightarrow> ct \<in> R \<and> ut = ct - maxLockTime m"
      using Cons.prems(2) nth_mem [OF True] by blast
    note eff = lock_step_effect [OF wfj now step]
    have wf': "\<forall>pc\<in>set (pcs[j := pc']). \<forall>ct ut. pc_times pc = Some (ct, ut) \<longrightarrow>
        ct \<in> R \<and> ut = ct - maxLockTime m"
    proof
      fix pc
      assume "pc \<in> set (pcs[j := pc'])"
      then have "pc = pc' \<or> pc \<in> set pcs"
        using set_update_subset_insert [of pcs j pc'] by auto
      then show "\<forall>ct ut. pc_times pc = Some (ct, ut) \<longrightarrow> ct \<in> R \<and> ut = ct - maxLockTime m"
        using eff Cons.prems(2) by blast
    qed
    note cnt = filter_update_count [OF True, of acquired pc']
    have inv': "length (filter acquired (pcs[j := pc'])) = 0
       \<or> (length (filter acquired (pcs[j := pc'])) = 1
           \<and> (\<exists>d. docs w' i = Some d \<and> state d \<noteq> 0 \<and> time d \<in> uint ` R))"
    proof (cases "acquired pc' = acquired (pcs ! j) \<and> docs w' = docs w")
      case True
      then show ?thesis
        using cnt Cons.prems(3) by (auto split: if_splits)
    next
      case False
      then obtain d ct where new: "\<not> acquired (pcs ! j)" "acquired pc'" "ct \<in> R"
        and d: "docs w i = Some d" "state d = 0 \<or> time d < uint (ct - maxLockTime m)"
        and upd: "docs w' = (docs w)(i \<mapsto> d\<lparr>state := 1, time := uint ct\<rparr>)"
        using eff by blast
      have free: "length (filter acquired pcs) = 0"
      proof (rule ccontr)
        assume "length (filter acquired pcs) \<noteq> 0"
        then obtain d0 t where "docs w i = Some d0" "state d0 \<noteq> 0"
          "t \<in> R" "time d0 = uint t"
          using Cons.prems(3) by auto
        then show False
          using d H \<open>ct \<in> R\<close> by (auto simp: word_less_def)
      qed
      show ?thesis
        using cnt new free upd by simp
    qed
    show ?thesis
      using Cons.IH [OF rest wf' inv'] ev True step by simp
  qed
qed

text \<open>
  C1: any number of \<^verbatim>\<open>Lock\<close> calls for one identity run concurrently, each a sequence of
  atomic store operations that a schedule interleaves in any order, each caller with its
  own clock, on any collection and with any store failures. There is no release in the
  schedule, and no lock taken at one of its events is stale at another. Then at most one
  of the calls returns \<^verbatim>\<open>ok = true\<close>.
\<close>

theorem Lock_mutual_exclusion:
  assumes "no_expiry m sched"
  shows "length (filter acquired (fst (interleave m i sched (replicate n PcStart, w)))) \<le> 1"
proof -
  have H: "\<forall>t\<in>snd ` set sched. \<forall>now\<in>snd ` set sched. \<not> t < now - maxLockTime m"
    using assms by (fastforce simp: no_expiry_def list_all_iff)
  have start: "\<forall>pc\<in>set (replicate n PcStart). \<forall>ct ut. pc_times pc = Some (ct, ut) \<longrightarrow>
      ct \<in> snd ` set sched \<and> ut = ct - maxLockTime m"
    by simp
  have none: "length (filter acquired (replicate n PcStart)) = 0
       \<or> (length (filter acquired (replicate n PcStart)) = 1
           \<and> (\<exists>d. docs w i = Some d \<and> state d \<noteq> 0 \<and> time d \<in> uint ` snd ` set sched))"
    by simp
  show ?thesis
    by (rule interleave_exclusive [OF H subset_refl start none])
qed

theorem Lock_mutual_exclusion_witness:
  "no_expiry \<lparr>lockRetryCount = 1, maxLockTime = 60000\<rparr>
     [(0, 1700000030000), (1, 1700000030005), (1, 1700000030010),
      (1, 1700000030020), (1, 1700000030030)]
   \<and> length (filter acquired (fst (interleave \<lparr>lockRetryCount = 1, maxLockTime = 60000\<rparr>
        ''order-42''
        [(0, 1700000030000), (1, 1700000030005), (1, 1700000030010),
         (1, 1700000030020), (1, 1700000030030)]
        (replicate 2 PcStart,
         \<lparr>docs = [''order-42'' \<mapsto> \<lparr>state = 0, time = 1700000000000\<rparr>],
           wall = 0, script = [], oplog = []\<rparr>)))) \<le> 1
   \<and> fst (interleave \<lparr>lockRetryCount = 1, maxLockTime = 60000\<rparr> ''order-42''
        [(0, 1700000030000), (1, 1700000030005), (1, 1700000030010),
         (1, 1700000030020), (1, 1700000030030)]
        (replicate 2 PcStart,
         \<lparr>docs = [''order-42'' \<mapsto> \<lparr>state = 0, time = 1700000000000\<rparr>],
           wall = 0, script = [], oplog = []\<rparr>))
       = [PcDone True False None, PcDone False False None]"
proof -
  have two: "replicate 2 PcStart = [PcStart, PcStart]"
    by (simp add: numeral_2_eq_2)
  have run: "fst (interleave \<lparr>lockRetryCount = 1, maxLockTime = 60000\<rparr> ''order-42''
        [(0, 1700000030000), (1, 1700000030005), (1, 1700000030010),
         (1, 1700000030020), (1, 1700000030030)]
        ([PcStart, PcStart],
         \<lparr>docs = [''order-42'' \<mapsto> \<lparr>state = 0, time = 1700000000000\<rparr>],
           wall = 0, script = [], oplog = []\<rparr>))
       = [PcDone True False None, PcDone False False None]"
    by (simp add: tryLock_def FindOneAndUpdate_def exists_def FindOne_def round_trip_def
        apply_upd_def upd_overflow_def MaxInt64_def)
  show ?thesis
    using Lock_mutual_exclusion
      [of "\<lparr>lockRetryCount = 1, maxLockTime = 60000\<rparr>"
          "[(0, 1700000030000), (1, 1700000030005), (1, 1700000030010),
            (1, 1700000030020), (1, 1700000030030)]"
          "''order-42''" 2
          "\<lparr>docs = [''order-42'' \<mapsto> \<lparr>state = 0, time = 1700000000000\<rparr>],
             wall = 0, script = [], oplog = []\<rparr>"]
      run
    by (simp add: no_expiry_def two)
qed

end
